theory Spec2Isabelle
  imports
    Complex_Main
    "HOL-Library.Char_ord"
    "HOL-Library.List_Lexorder"
    "HOL-Library.Product_Lexorder"
    "HOL-Library.Multiset"
    "HOL-Library.AList"
    "HOL-Library.Log_Nat"
begin

section \<open>Queen genotype inference from drone genotypes\<close>

text \<open>
  A shallow embedding of \<^verbatim>\<open>Untitled-1.py\<close> (the parallel pipeline) and of the
  pedigree loader of \<^verbatim>\<open>infer_queen_GT2_latest.py\<close>.  Files are lists of lines,
  Python dictionaries are association lists in insertion order, exceptions are
  values of the type \<open>error\<close>.

  A character is a code point below 256, and strings compare by code point.
  A Python \<^verbatim>\<open>float\<close> is an IEEE double: a rational that the format
  represents, an infinity or a NaN; the division and the subtraction of the
  decision rule round to the nearest double, ties to even.
\<close>

datatype error =
    ZeroDivisionError
  | OverflowError
  | ValueError string
  | KeyError string

subsection \<open>Floating-point numbers\<close>

datatype pyfloat = Finite rat | PosInf | NegInf | NaN

text \<open>Rounding of a rational to an integer, a tie going to the even neighbour.\<close>

definition round_half_even :: "rat \<Rightarrow> int" where
  "round_half_even x =
     (let f = \<lfloor>x\<rfloor>; d = x - of_int f
      in if d < 1 / 2 then f
         else if 1 / 2 < d then f + 1
         else if even f then f else f + 1)"

definition pow2 :: "int \<Rightarrow> rat" where
  "pow2 e = (if 0 \<le> e then 2 ^ nat e else 1 / 2 ^ nat (- e))"

text \<open>The binary exponent \<open>e\<close> of a positive rational \<open>x\<close>: \<open>pow2 e \<le> x < pow2 (e + 1)\<close>.\<close>

definition ilog2 :: "rat \<Rightarrow> int" where
  "ilog2 x = (if 1 \<le> x then bitlen \<lfloor>x\<rfloor> - 1 else - bitlen (\<lceil>1 / x\<rceil> - 1))"

text \<open>
  The double nearest to a rational: 53 significant bits, the exponent not below
  \<open>-1022\<close> (the subnormal numbers share the spacing \<open>pow2 (-1074)\<close>), and an
  infinity when the rounded value reaches \<open>pow2 1024\<close>.
\<close>

definition round_double :: "rat \<Rightarrow> pyfloat" where
  "round_double x =
     (if x = 0 then Finite 0
      else let a = \<bar>x\<bar>;
               e = max (ilog2 a) (- 1022);
               q = pow2 (e - 52);
               r = of_int (round_half_even (a / q)) * q
           in if pow2 1024 \<le> r then (if x < 0 then NegInf else PosInf)
              else Finite (if x < 0 then - r else r))"

text \<open>The comparison \<^verbatim>\<open>x < y\<close> of two floats: false when either is a NaN.\<close>

fun fl_less :: "pyfloat \<Rightarrow> pyfloat \<Rightarrow> bool" where
  "fl_less NaN y = False"
| "fl_less x NaN = False"
| "fl_less (Finite a) (Finite b) = (a < b)"
| "fl_less (Finite a) PosInf = True"
| "fl_less (Finite a) NegInf = False"
| "fl_less PosInf y = False"
| "fl_less NegInf NegInf = False"
| "fl_less NegInf y = True"

text \<open>The expression \<^verbatim>\<open>1 - threshold\<close>.\<close>

fun one_minus :: "pyfloat \<Rightarrow> pyfloat" where
  "one_minus (Finite t) = round_double (1 - t)"
| "one_minus PosInf = NegInf"
| "one_minus NegInf = PosInf"
| "one_minus NaN = NaN"

subsection \<open>Consensus inference: \<^verbatim>\<open>infer_queen_gt_from_list\<close>\<close>

text \<open>The list comprehension that drops the missing calls of the ploidy mode.\<close>

definition valid_gts :: "bool \<Rightarrow> string list \<Rightarrow> string list" where
  "valid_gts haploid drone_gts =
     (if haploid then filter (\<lambda>gt. gt \<notin> set [''.'', '''']) drone_gts
      else filter (\<lambda>gt. gt \<notin> set [''./.'', '''']) drone_gts)"

text \<open>\<^verbatim>\<open>sum(1 for gt in valid_gts if gt != ref)\<close>: one is added for every call that passes the test.\<close>

definition alt_count :: "bool \<Rightarrow> string list \<Rightarrow> int" where
  "alt_count haploid valid =
     (if haploid then sum_list (map (\<lambda>gt. 1) (filter (\<lambda>gt. gt \<noteq> ''0'') valid))
      else sum_list (map (\<lambda>gt. 1) (filter (\<lambda>gt. gt \<noteq> ''0/0'') valid)))"

text \<open>
  Python's \<^verbatim>\<open>/\<close> on two integers: it raises on a zero divisor, gives the
  double nearest to the quotient, and raises when that is out of range.
\<close>

definition true_div :: "int \<Rightarrow> int \<Rightarrow> error + pyfloat" where
  "true_div a b =
     (if b = 0 then Inl ZeroDivisionError
      else (case round_double (of_int a / of_int b) of
              Finite r \<Rightarrow> Inr (Finite r)
            | _ \<Rightarrow> Inl OverflowError))"

definition infer_queen_gt_from_list :: "string list \<Rightarrow> pyfloat \<Rightarrow> int \<Rightarrow> bool \<Rightarrow> error + string" where
  "infer_queen_gt_from_list drone_gts threshold min_drones haploid =
     (let valid = valid_gts haploid drone_gts;
          total = int (length valid)
      in if total < min_drones then Inr ''./.''
         else (case true_div (alt_count haploid valid) total of
                 Inl e \<Rightarrow> Inl e
               | Inr ratio \<Rightarrow>
                   if fl_less ratio threshold then Inr ''0/0''
                   else if fl_less (one_minus threshold) ratio then Inr ''1/1''
                   else Inr ''0/1''))"

text \<open>The quantities the specification names \<open>total\<close>, \<open>altCount\<close> and \<open>ratio\<close>;
  the ratio is the double that the division returns.\<close>

definition total_of :: "bool \<Rightarrow> string list \<Rightarrow> int" where
  "total_of haploid drone_gts = int (length (valid_gts haploid drone_gts))"

definition alt_of :: "bool \<Rightarrow> string list \<Rightarrow> int" where
  "alt_of haploid drone_gts = alt_count haploid (valid_gts haploid drone_gts)"

definition ratio_of :: "bool \<Rightarrow> string list \<Rightarrow> pyfloat" where
  "ratio_of haploid drone_gts =
     round_double (of_int (alt_of haploid drone_gts) / of_int (total_of haploid drone_gts))"

subsection \<open>Python string operations used by the scripts\<close>

text \<open>
  The characters \<^verbatim>\<open>str.strip()\<close> and \<^verbatim>\<open>str.split()\<close> remove (those with
  \<^verbatim>\<open>str.isspace()\<close>): space, tab, line feed, vertical tab, form feed, carriage
  return, the four separators \<open>0x1C\<close> to \<open>0x1F\<close>, next line \<open>0x85\<close> and the
  no-break space \<open>0xA0\<close>.
\<close>

definition is_space :: "char \<Rightarrow> bool" where
  "is_space c = (c \<in> set [CHR '' '', CHR 0x09, CHR 0x0A, CHR 0x0B, CHR 0x0C, CHR 0x0D,
                           CHR 0x1C, CHR 0x1D, CHR 0x1E, CHR 0x1F, CHR 0x85, CHR 0xA0])"

definition strip :: "string \<Rightarrow> string" where
  "strip s = rev (dropWhile is_space (rev (dropWhile is_space s)))"

text \<open>\<^verbatim>\<open>s.lstrip(chars)\<close> drops the leading characters that belong to \<open>chars\<close>.\<close>

definition lstrip_chars :: "string \<Rightarrow> string \<Rightarrow> string" where
  "lstrip_chars chars s = dropWhile (\<lambda>c. c \<in> set chars) s"

definition startswith :: "string \<Rightarrow> string \<Rightarrow> bool" where
  "startswith s prefix = (take (length prefix) s = prefix)"

text \<open>\<^verbatim>\<open>s.split(sep)\<close> for a one-character separator: every occurrence cuts, the
  result is never empty.\<close>

fun split_on :: "char \<Rightarrow> string \<Rightarrow> string list" where
  "split_on sep [] = [[]]"
| "split_on sep (c # cs) =
     (if c = sep then [] # split_on sep cs
      else (case split_on sep cs of
              [] \<Rightarrow> [[c]]
            | field # fields \<Rightarrow> (c # field) # fields))"

text \<open>\<^verbatim>\<open>s.split()\<close>: maximal runs of non-space characters; \<open>cur\<close> is the token
  being read, reversed.\<close>

fun split_ws_acc :: "string \<Rightarrow> string \<Rightarrow> string list" where
  "split_ws_acc cur [] = (if cur = [] then [] else [rev cur])"
| "split_ws_acc cur (c # cs) =
     (if is_space c
      then (if cur = [] then split_ws_acc [] cs else rev cur # split_ws_acc [] cs)
      else split_ws_acc (c # cur) cs)"

definition split_ws :: "string \<Rightarrow> string list" where
  "split_ws s = split_ws_acc [] s"

text \<open>\<^verbatim>\<open>sep.join(xs)\<close>.\<close>

fun join :: "string \<Rightarrow> string list \<Rightarrow> string" where
  "join sep [] = []"
| "join sep [x] = x"
| "join sep (x # y # ys) = x @ sep @ join sep (y # ys)"

abbreviation tab :: char where
  "tab \<equiv> CHR 0x09"

abbreviation newline :: char where
  "newline \<equiv> CHR 0x0A"

text \<open>
  \<^verbatim>\<open>int(s)\<close> on a string: surrounding whitespace is skipped, one sign is
  allowed, then decimal digits, where single underscores may separate digits.
  Anything else raises \<^verbatim>\<open>ValueError\<close>.  The whitespace that \<^verbatim>\<open>int\<close> skips is
  space, tab, line feed, vertical tab, form feed, carriage return, and the two
  spaces above \<open>0x7F\<close>; the separators \<open>0x1C\<close> to \<open>0x1F\<close> are not skipped.
\<close>

definition is_int_space :: "char \<Rightarrow> bool" where
  "is_int_space c = (c \<in> set [CHR '' '', CHR 0x09, CHR 0x0A, CHR 0x0B, CHR 0x0C, CHR 0x0D,
                               CHR 0x85, CHR 0xA0])"

definition int_strip :: "string \<Rightarrow> string" where
  "int_strip s = rev (dropWhile is_int_space (rev (dropWhile is_int_space s)))"

definition is_digit :: "char \<Rightarrow> bool" where
  "is_digit c = (CHR ''0'' \<le> c \<and> c \<le> CHR ''9'')"

definition digit_val :: "char \<Rightarrow> int" where
  "digit_val c = int (of_char c) - 48"

fun digits_wellformed :: "string \<Rightarrow> bool" where
  "digits_wellformed [] = False"
| "digits_wellformed [c] = is_digit c"
| "digits_wellformed (c # d # cs) =
     (if is_digit c then digits_wellformed (d # cs)
      else c = CHR ''_'' \<and> is_digit d \<and> digits_wellformed (d # cs))"

definition digits_value :: "string \<Rightarrow> int" where
  "digits_value ds = foldl (\<lambda>acc c. 10 * acc + digit_val c) 0 (filter (\<lambda>c. c \<noteq> CHR ''_'') ds)"

definition py_int :: "string \<Rightarrow> error + int" where
  "py_int s =
     (let t = int_strip s;
          neg = (case t of c # _ \<Rightarrow> c = CHR ''-'' | [] \<Rightarrow> False);
          body = (case t of c # r \<Rightarrow> if c = CHR ''-'' \<or> c = CHR ''+'' then r else t | [] \<Rightarrow> [])
      in if body \<noteq> [] \<and> is_digit (hd body) \<and> digits_wellformed body
         then Inr (if neg then - digits_value body else digits_value body)
         else Inl (ValueError ''invalid literal for int()''))"

subsection \<open>Dictionaries in insertion order\<close>

text \<open>
  A Python \<^verbatim>\<open>dict\<close> is an association list with distinct keys, in insertion
  order.  \<open>AList.update\<close> is the assignment \<^verbatim>\<open>d[k] = v\<close>: it replaces the value
  of a present key in place and appends an absent key.
\<close>

type_synonym ('k, 'v) dict = "('k \<times> 'v) list"

text \<open>\<^verbatim>\<open>d[k].append(v)\<close> on a \<^verbatim>\<open>defaultdict(list)\<close>.\<close>

definition dict_append :: "'k \<Rightarrow> 'v \<Rightarrow> ('k, 'v list) dict \<Rightarrow> ('k, 'v list) dict" where
  "dict_append k v d =
     (case map_of d k of
        None \<Rightarrow> AList.update k [v] d
      | Some vs \<Rightarrow> AList.update k (vs @ [v]) d)"

text \<open>\<^verbatim>\<open>d[k][q] = v\<close> on a \<^verbatim>\<open>defaultdict(dict)\<close>.\<close>

definition dict_set_nested :: "'k \<Rightarrow> 'q \<Rightarrow> 'v \<Rightarrow> ('k, ('q, 'v) dict) dict \<Rightarrow> ('k, ('q, 'v) dict) dict" where
  "dict_set_nested k q v d =
     (case map_of d k of
        None \<Rightarrow> AList.update k (AList.update q v []) d
      | Some inner \<Rightarrow> AList.update k (AList.update q v inner) d)"

text \<open>\<^verbatim>\<open>dict(zip(ks, vs))\<close>: pairs are assigned from left to right.\<close>

definition dict_of_zip :: "'k list \<Rightarrow> 'v list \<Rightarrow> ('k, 'v) dict" where
  "dict_of_zip ks vs = fold (\<lambda>(k, v) d. AList.update k v d) (zip ks vs) []"

subsection \<open>Pedigree loaders\<close>

text \<open>
  The loop of \<^verbatim>\<open>main\<close> in \<^verbatim>\<open>Untitled-1.py\<close>:
  \<^verbatim>\<open>queen, drone = parts[0], parts[1]; queen_map[queen].append(drone)\<close>.
  The state is the map and the diagnostics printed so far.
\<close>

definition load_line :: "string \<Rightarrow> (string, string list) dict \<times> string list
    \<Rightarrow> (string, string list) dict \<times> string list" where
  "load_line line st =
     (case split_ws (strip line) of
        queen # drone # _ \<Rightarrow> (dict_append queen drone (fst st), snd st)
      | _ \<Rightarrow> (fst st, snd st @ [''Bad line in list file: '' @ strip line]))"

definition load_queen_map :: "string list \<Rightarrow> (string, string list) dict \<times> string list" where
  "load_queen_map list_lines = fold load_line list_lines ([], [])"

text \<open>
  The loop of \<^verbatim>\<open>infer_queen_GT2_latest.py\<close>: the first token goes to
  \<^verbatim>\<open>droneID\<close>, the second to \<^verbatim>\<open>queenID\<close>; \<^verbatim>\<open>family_map\<close> is then built from the
  zipped lists.
\<close>

definition load_ids_line :: "string \<Rightarrow> string list \<times> string list \<Rightarrow> string list \<times> string list" where
  "load_ids_line line ids =
     (case split_ws (strip line) of
        p0 # p1 # _ \<Rightarrow> (fst ids @ [strip p0], snd ids @ [strip p1])
      | _ \<Rightarrow> ids)"

definition load_ids :: "string list \<Rightarrow> string list \<times> string list" where
  "load_ids list_lines = fold load_ids_line list_lines ([], [])"

definition family_map :: "string list \<Rightarrow> string list \<Rightarrow> (string, string list) dict" where
  "family_map droneID queenID =
     fold (\<lambda>(drone, queen) m. dict_append queen drone m) (zip droneID queenID) []"

subsection \<open>Reading the variant file\<close>

text \<open>\<^verbatim>\<open>extract_samples_from_header\<close>: the sample names of the first line that
  starts with \<^verbatim>\<open>#CHROM\<close>, the empty list when there is none.\<close>

fun extract_samples_from_header :: "string list \<Rightarrow> string list" where
  "extract_samples_from_header [] = []"
| "extract_samples_from_header (line # f) =
     (if startswith line ''#CHROM''
      then drop 9 (split_on tab (strip (lstrip_chars ''#'' line)))
      else extract_samples_from_header f)"

text \<open>The first loop of \<^verbatim>\<open>get_queen_genotypes\<close>: the stripped header line and the
  lines after it, or \<open>None\<close> when the file ends first.\<close>

fun find_header_line :: "string list \<Rightarrow> (string \<times> string list) option" where
  "find_header_line [] = None"
| "find_header_line (line # f) =
     (if startswith line ''#CHROM'' then Some (strip line, f) else find_header_line f)"

text \<open>
  The genotype a drone contributes at one row:
  \<^verbatim>\<open>gt = sample_data.get(d, './.'); gt = gt.split(':')[0] if gt != '.' else './.'\<close>.
\<close>

definition drone_gt :: "(string, string) dict \<Rightarrow> string \<Rightarrow> string" where
  "drone_gt sample_data d =
     (let gt = (case map_of sample_data d of None \<Rightarrow> ''./.'' | Some g \<Rightarrow> g)
      in if gt \<noteq> ''.'' then hd (split_on (CHR '':'') gt) else ''./.'')"

definition row_drone_gts :: "string list \<Rightarrow> string list \<Rightarrow> string \<Rightarrow> string list" where
  "row_drone_gts sample_names drones line =
     (let parts = split_on tab (strip line);
          sample_data = dict_of_zip sample_names (drop 9 parts)
      in map (drone_gt sample_data) drones)"

text \<open>One data row: the updated \<^verbatim>\<open>genotypes\<close> and \<^verbatim>\<open>info_map\<close>.\<close>

definition process_row :: "string list \<Rightarrow> string list \<Rightarrow> pyfloat \<Rightarrow> int \<Rightarrow> bool \<Rightarrow> string
    \<Rightarrow> (string, string) dict \<times> (string, string list) dict
    \<Rightarrow> error + (string, string) dict \<times> (string, string list) dict" where
  "process_row sample_names drones threshold min_drones haploid line st =
     (let parts = split_on tab (strip line);
          info_cols = take 9 parts;
          variant_key = join [tab] (take 5 parts);
          drone_gts = row_drone_gts sample_names drones line
      in case infer_queen_gt_from_list drone_gts threshold min_drones haploid of
           Inl e \<Rightarrow> Inl e
         | Inr queen_gt \<Rightarrow>
             Inr (AList.update variant_key queen_gt (fst st),
                  AList.update variant_key info_cols (snd st)))"

fun process_rows :: "string list \<Rightarrow> string list \<Rightarrow> pyfloat \<Rightarrow> int \<Rightarrow> bool \<Rightarrow> string list
    \<Rightarrow> (string, string) dict \<times> (string, string list) dict
    \<Rightarrow> error + (string, string) dict \<times> (string, string list) dict" where
  "process_rows sample_names drones threshold min_drones haploid [] st = Inr st"
| "process_rows sample_names drones threshold min_drones haploid (line # f) st =
     (if startswith line ''#''
      then process_rows sample_names drones threshold min_drones haploid f st
      else (case process_row sample_names drones threshold min_drones haploid line st of
              Inl e \<Rightarrow> Inl e
            | Inr st' \<Rightarrow> process_rows sample_names drones threshold min_drones haploid f st'))"

type_synonym task_result = "string \<times> (string, string) dict \<times> (string, string list) dict"

definition get_queen_genotypes :: "string list \<Rightarrow> string \<Rightarrow> string list \<Rightarrow> pyfloat \<Rightarrow> int \<Rightarrow> bool
    \<Rightarrow> error + task_result" where
  "get_queen_genotypes input_vcf queen_name drones threshold min_drones haploid =
     (case find_header_line input_vcf of
        None \<Rightarrow> Inl (ValueError ''No #CHROM line found in VCF'')
      | Some (header_line, f) \<Rightarrow>
          (let cols = split_on tab (lstrip_chars ''#'' header_line);
               sample_names = drop 9 cols
           in case process_rows sample_names drones threshold min_drones haploid f ([], []) of
                Inl e \<Rightarrow> Inl e
              | Inr (genotypes, info_map) \<Rightarrow> Inr (queen_name, genotypes, info_map)))"

subsection \<open>Merging the results of the per-queen tasks\<close>

type_synonym merged = "(string, (string, string) dict) dict \<times> (string, string list) dict"

text \<open>
  The inner loop of the merge in \<^verbatim>\<open>main\<close>:
  \<^verbatim>\<open>all_genotypes[variant_key][queen_name] = gt\<close> and
  \<^verbatim>\<open>shared_info_map[variant_key] = info_map[variant_key]\<close>; the subscript on
  \<^verbatim>\<open>info_map\<close> raises \<^verbatim>\<open>KeyError\<close> on an absent key.
\<close>

fun merge_items :: "string \<Rightarrow> (string, string list) dict \<Rightarrow> (string \<times> string) list
    \<Rightarrow> merged \<Rightarrow> error + merged" where
  "merge_items queen_name info_map [] acc = Inr acc"
| "merge_items queen_name info_map ((variant_key, gt) # items) acc =
     (case map_of info_map variant_key of
        None \<Rightarrow> Inl (KeyError variant_key)
      | Some info_cols \<Rightarrow>
          merge_items queen_name info_map items
            (dict_set_nested variant_key queen_name gt (fst acc),
             AList.update variant_key info_cols (snd acc)))"

definition merge_result :: "task_result \<Rightarrow> merged \<Rightarrow> error + merged" where
  "merge_result r acc = (case r of (queen_name, queen_gts, info_map) \<Rightarrow>
     merge_items queen_name info_map queen_gts acc)"

subsection \<open>Sorting and writing\<close>

text \<open>\<^verbatim>\<open>variant_key_sorter\<close>: the unpacking needs two fields, \<^verbatim>\<open>int\<close> may raise.\<close>

definition variant_key_sorter :: "string \<Rightarrow> error + string \<times> int" where
  "variant_key_sorter key =
     (case split_on tab key of
        chrom # pos # _ \<Rightarrow>
          (case py_int pos of Inl e \<Rightarrow> Inl e | Inr p \<Rightarrow> Inr (chrom, p))
      | _ \<Rightarrow> Inl (ValueError ''not enough values to unpack''))"

text \<open>
  \<^verbatim>\<open>sorted(keys, key=variant_key_sorter)\<close>: the sort key of every element is
  computed first, from left to right; the elements are then sorted stably by
  their sort keys.  Tuples compare lexicographically, strings compare
  lexicographically by character code.
\<close>

fun decorate :: "string list \<Rightarrow> error + ((string \<times> int) \<times> string) list" where
  "decorate [] = Inr []"
| "decorate (key # keys) =
     (case variant_key_sorter key of
        Inl e \<Rightarrow> Inl e
      | Inr k \<Rightarrow> (case decorate keys of Inl e \<Rightarrow> Inl e | Inr ds \<Rightarrow> Inr ((k, key) # ds)))"

definition sorted_variant_keys :: "string list \<Rightarrow> error + string list" where
  "sorted_variant_keys keys =
     (case decorate keys of
        Inl e \<Rightarrow> Inl e
      | Inr ds \<Rightarrow> Inr (map snd (sort_key fst ds)))"

text \<open>The header loop of \<^verbatim>\<open>write_combined_vcf\<close>; the result is what is written.\<close>

fun write_header :: "string list \<Rightarrow> string list \<Rightarrow> string list" where
  "write_header [] queen_names = []"
| "write_header (line # f) queen_names =
     (if startswith line ''##'' then line # write_header f queen_names
      else if startswith line ''#CHROM''
      then [join [tab] (take 9 (split_on tab (strip line)) @ queen_names) @ [newline]]
      else write_header f queen_names)"

definition row_queen_gts :: "(string, (string, string) dict) dict \<Rightarrow> string list \<Rightarrow> string \<Rightarrow> string list" where
  "row_queen_gts all_genotypes queen_names variant_key =
     (let per_queen = (case map_of all_genotypes variant_key of None \<Rightarrow> [] | Some d \<Rightarrow> d)
      in map (\<lambda>q. case map_of per_queen q of None \<Rightarrow> ''./.'' | Some gt \<Rightarrow> gt) queen_names)"

fun write_rows :: "string list \<Rightarrow> string list \<Rightarrow> (string, (string, string) dict) dict
    \<Rightarrow> (string, string list) dict \<Rightarrow> error + string list" where
  "write_rows [] queen_names all_genotypes info_map = Inr []"
| "write_rows (variant_key # variant_keys) queen_names all_genotypes info_map =
     (case map_of info_map variant_key of
        None \<Rightarrow> Inl (KeyError variant_key)
      | Some info_cols \<Rightarrow>
          (case write_rows variant_keys queen_names all_genotypes info_map of
             Inl e \<Rightarrow> Inl e
           | Inr rows \<Rightarrow>
               Inr ((join [tab] (info_cols @ row_queen_gts all_genotypes queen_names variant_key)
                     @ [newline]) # rows)))"

text \<open>\<^verbatim>\<open>write_combined_vcf\<close> up to the text of the uncompressed file; the calls of
  the external compressor and indexer are not part of the model.\<close>

definition write_combined_vcf :: "string list \<Rightarrow> string list \<Rightarrow> (string, (string, string) dict) dict
    \<Rightarrow> (string, string list) dict \<Rightarrow> error + string list" where
  "write_combined_vcf input_vcf queen_names all_genotypes info_map =
     (case sorted_variant_keys (map fst all_genotypes) of
        Inl e \<Rightarrow> Inl e
      | Inr variant_keys \<Rightarrow>
          (case write_rows variant_keys queen_names all_genotypes info_map of
             Inl e \<Rightarrow> Inl e
           | Inr rows \<Rightarrow> Inr (write_header input_vcf queen_names @ rows)))"

subsection \<open>The run\<close>

text \<open>
  The futures are created in the order of \<^verbatim>\<open>queen_map.items()\<close> and their results
  are taken in that order; \<^verbatim>\<open>future.result()\<close> re-raises the exception of its
  task.  In the model a task is the value of \<open>get_queen_genotypes\<close> on its
  arguments, and the list of task outcomes is the list \<^verbatim>\<open>futures\<close>.
\<close>

definition submit_tasks :: "string list \<Rightarrow> (string, string list) dict \<Rightarrow> pyfloat \<Rightarrow> int \<Rightarrow> bool
    \<Rightarrow> (error + task_result) list" where
  "submit_tasks input_vcf queen_map threshold min_drones haploid =
     map (\<lambda>(queen, drones). get_queen_genotypes input_vcf queen drones threshold min_drones haploid)
       queen_map"

fun gather :: "(error + task_result) list \<Rightarrow> merged \<Rightarrow> error + merged" where
  "gather [] acc = Inr acc"
| "gather (future # futures) acc =
     (case future of
        Inl e \<Rightarrow> Inl e
      | Inr r \<Rightarrow> (case merge_result r acc of Inl e \<Rightarrow> Inl e | Inr acc' \<Rightarrow> gather futures acc'))"

definition main :: "string list \<Rightarrow> string list \<Rightarrow> pyfloat \<Rightarrow> int \<Rightarrow> bool \<Rightarrow> error + string list" where
  "main list_lines input_vcf threshold min_drones haploid =
     (let queen_map = fst (load_queen_map list_lines);
          vcf_samples = extract_samples_from_header input_vcf;
          futures = submit_tasks input_vcf queen_map threshold min_drones haploid
      in case gather futures ([], []) of
           Inl e \<Rightarrow> Inl e
         | Inr (all_genotypes, shared_info_map) \<Rightarrow>
             write_combined_vcf input_vcf (map fst queen_map) all_genotypes shared_info_map)"

text \<open>The map \<^verbatim>\<open>family_map\<close> that \<^verbatim>\<open>infer_queen_genotypes\<close> builds from a list file.\<close>

definition family_of_list :: "string list \<Rightarrow> (string, string list) dict" where
  "family_of_list list_lines =
     (case load_ids list_lines of (droneID, queenID) \<Rightarrow> family_map droneID queenID)"

subsection \<open>Variant keys and their order, written out\<close>

text \<open>
  Python's comparison of two strings: the first differing character decides, by
  character code; a proper prefix is smaller.
\<close>

fun str_less :: "string \<Rightarrow> string \<Rightarrow> bool" where
  "str_less [] [] = False"
| "str_less [] (y # ys) = True"
| "str_less (x # xs) [] = False"
| "str_less (x # xs) (y # ys) =
     ((of_char x :: nat) < of_char y \<or> (x = y \<and> str_less xs ys))"

text \<open>
  The site that a data row names with its first five columns: chromosome,
  position, identifier, reference allele, alternate alleles.
\<close>

record variant =
  chrom :: string
  pos :: int
  ident :: string
  ref_allele :: string
  alt_alleles :: string

text \<open>The decimal numeral of an integer, as a variant file writes a position.\<close>

definition digit_char :: "nat \<Rightarrow> char" where
  "digit_char d = char_of (48 + d)"

function show_nat :: "nat \<Rightarrow> string" where
  "show_nat n = (if n < 10 then [digit_char n] else show_nat (n div 10) @ [digit_char (n mod 10)])"
  by pat_completeness auto
termination
  by (relation "measure id") auto

declare show_nat.simps [simp del]

definition show_int :: "int \<Rightarrow> string" where
  "show_int i = (if i < 0 then CHR ''-'' # show_nat (nat (- i)) else show_nat (nat i))"

text \<open>The text of the five columns, joined by tabs: the \<^verbatim>\<open>variant_key\<close> of the row.\<close>

definition render_key :: "variant \<Rightarrow> string" where
  "render_key v = join [tab] [chrom v, show_int (pos v), ident v, ref_allele v, alt_alleles v]"

text \<open>
  Two sites are in order when the chromosome of the first is the smaller string
  or, on the same chromosome, its position is not the larger integer.
\<close>

definition variant_le :: "variant \<Rightarrow> variant \<Rightarrow> bool" where
  "variant_le a b =
     (str_less (chrom a) (chrom b) \<or> (chrom a = chrom b \<and> pos a \<le> pos b))"

subsection \<open>The place of the sample-header line\<close>

text \<open>
  A data row is a line that does not start with \<^verbatim>\<open>#\<close>.  The sample-header line
  comes before the data rows when a line that starts with \<^verbatim>\<open>#CHROM\<close> is reached
  through lines that start with \<^verbatim>\<open>#\<close> only.
\<close>

fun header_before_data :: "string list \<Rightarrow> bool" where
  "header_before_data [] = False"
| "header_before_data (line # f) =
     (if startswith line ''#CHROM'' then True
      else if startswith line ''#'' then header_before_data f
      else False)"

text \<open>The lines before the first line that starts with \<^verbatim>\<open>#CHROM\<close>, and the file
  from that line on (empty when there is no such line).\<close>

definition before_header :: "string list \<Rightarrow> string list" where
  "before_header input_vcf = takeWhile (\<lambda>line. \<not> startswith line ''#CHROM'') input_vcf"

definition from_header :: "string list \<Rightarrow> string list" where
  "from_header input_vcf = dropWhile (\<lambda>line. \<not> startswith line ''#CHROM'') input_vcf"

subsection \<open>Example inputs\<close>

text \<open>A variant file whose first data row comes before the sample-header line.\<close>

definition late_header_vcf :: "string list" where
  "late_header_vcf =
     [join [tab] [''1'', ''100'', ''.'', ''A'', ''T'', ''.'', ''PASS'', ''.'', ''GT'', ''0/1'', ''0/1''] @ [newline],
      join [tab] [''#CHROM'', ''POS'', ''ID'', ''REF'', ''ALT'', ''QUAL'', ''FILTER'', ''INFO'', ''FORMAT'', ''d1'', ''d2''] @ [newline],
      join [tab] [''1'', ''200'', ''.'', ''G'', ''C'', ''.'', ''PASS'', ''.'', ''GT'', ''0/0'', ''0/0''] @ [newline]]"

text \<open>A variant file with no sample-header line.\<close>

definition headerless_vcf :: "string list" where
  "headerless_vcf =
     [''##fileformat=VCFv4.2'' @ [newline],
      join [tab] [''1'', ''100'', ''.'', ''A'', ''T'', ''.'', ''PASS'', ''.'', ''GT'', ''0/0''] @ [newline]]"

text \<open>Three sites: chromosome \<open>2\<close> at position 5, chromosome \<open>10\<close> at positions
  10 and 9.\<close>

definition site_a :: variant where
  "site_a = \<lparr>chrom = ''2'', pos = 5, ident = ''.'', ref_allele = ''A'', alt_alleles = ''T''\<rparr>"

definition site_b :: variant where
  "site_b = \<lparr>chrom = ''10'', pos = 10, ident = ''.'', ref_allele = ''G'', alt_alleles = ''C''\<rparr>"

definition site_c :: variant where
  "site_c = \<lparr>chrom = ''10'', pos = 9, ident = ''.'', ref_allele = ''C'', alt_alleles = ''A''\<rparr>"

section \<open>Properties of the consensus inference\<close>

subsection \<open>Rounding\<close>

lemma round_half_even_bounds:
  "of_int (round_half_even x) \<le> x + 1" "\<lfloor>x\<rfloor> \<le> round_half_even x"
proof -
  have f: "of_int \<lfloor>x\<rfloor> \<le> x" by (rule of_int_floor_le)
  have "round_half_even x = \<lfloor>x\<rfloor> \<or> round_half_even x = \<lfloor>x\<rfloor> + 1"
    by (simp add: round_half_even_def Let_def)
  then show "of_int (round_half_even x) \<le> x + 1"
  proof
    assume "round_half_even x = \<lfloor>x\<rfloor>"
    then show ?thesis using f by linarith
  next
    assume "round_half_even x = \<lfloor>x\<rfloor> + 1"
    then show ?thesis using f by simp
  qed
  show "\<lfloor>x\<rfloor> \<le> round_half_even x"
    by (simp add: round_half_even_def Let_def)
qed

lemma pow2_pos: "0 < pow2 e"
  by (simp add: pow2_def)

lemma pow2_neg_le_one: "e \<le> 0 \<Longrightarrow> pow2 e \<le> 1"
  by (simp add: pow2_def divide_le_eq)

lemma ilog2_le_zero:
  assumes "0 < x" and "x \<le> 1"
  shows "ilog2 x \<le> 0"
proof (cases "1 \<le> x")
  case True
  with assms have "x = 1" by simp
  then show ?thesis by (simp add: ilog2_def bitlen_alt_def)
next
  case False
  then show ?thesis using bitlen_nonneg [of "\<lceil>1 / x\<rceil> - 1"] by (simp add: ilog2_def)
qed

text \<open>A quotient between 0 and 1 rounds to a finite double.\<close>

lemma round_double_unit_finite:
  assumes "0 \<le> x" and "x \<le> 1"
  shows "\<exists>r. round_double x = Finite r"
proof (cases "x = 0")
  case True
  then show ?thesis by (simp add: round_double_def)
next
  case False
  with assms have pos: "0 < x" by simp
  define e where "e = max (ilog2 \<bar>x\<bar>) (- 1022)"
  define q where "q = pow2 (e - 52)"
  define r where "r = of_int (round_half_even (\<bar>x\<bar> / q)) * q"
  have "e \<le> 0" using ilog2_le_zero [OF pos assms(2)] pos by (simp add: e_def)
  then have q1: "q \<le> 1" unfolding q_def by (intro pow2_neg_le_one) simp
  have q0: "0 < q" unfolding q_def by (rule pow2_pos)
  have "of_int (round_half_even (\<bar>x\<bar> / q)) \<le> \<bar>x\<bar> / q + 1"
    by (rule round_half_even_bounds)
  then have "r \<le> (\<bar>x\<bar> / q + 1) * q"
    unfolding r_def using q0 by (intro mult_right_mono) simp_all
  also have "\<dots> = \<bar>x\<bar> + q" using q0 by (simp add: algebra_simps)
  also have "\<dots> \<le> 2" using q1 assms pos by simp
  finally have "r \<le> 2" .
  moreover have "(2::rat) < pow2 1024" by (simp add: pow2_def)
  ultimately have "\<not> pow2 1024 \<le> r" by linarith
  then show ?thesis
    using pos False by (simp add: round_double_def Let_def e_def q_def r_def)
qed

text \<open>For a threshold strictly between 0 and 1/2, the float \<^verbatim>\<open>1 - threshold\<close> is
  finite and not below 1/2.\<close>

lemma one_minus_at_least_half:
  assumes "0 < t" and "t < 1 / 2"
  shows "\<exists>r. one_minus (Finite t) = Finite r \<and> 1 / 2 \<le> r"
proof -
  define x where "x = 1 - t"
  have x: "1 / 2 < x" "x < 1" using assms by (simp_all add: x_def)
  then have inv: "1 < 1 / x" "1 / x < 2"
    by (simp_all add: divide_less_eq less_divide_eq)
  then have "\<lceil>1 / x\<rceil> = 2" by (simp add: ceiling_unique)
  then have e: "ilog2 x = - 1" using x by (simp add: ilog2_def bitlen_alt_def)
  define m where "m = round_half_even (x / pow2 (- 53))"
  define r where "r = of_int m * pow2 (- 53)"
  have p: "pow2 (- 53) = 1 / 2 ^ 53" by (simp add: pow2_def)
  have "(2::rat) ^ 52 \<le> x * 2 ^ 53" using x by simp
  then have "(2::int) ^ 52 \<le> \<lfloor>x * 2 ^ 53\<rfloor>" by (simp add: le_floor_iff)
  also have "\<dots> \<le> m" unfolding m_def p using round_half_even_bounds(2) [of "x * 2 ^ 53"] by simp
  finally have m52: "(2::int) ^ 52 \<le> m" .
  then have "(2::rat) ^ 52 \<le> of_int m" by (metis of_int_le_iff of_int_numeral of_int_power)
  then have half: "1 / 2 \<le> r" unfolding r_def p by (simp add: le_divide_eq)
  have "of_int m \<le> x * 2 ^ 53 + 1"
    unfolding m_def p using round_half_even_bounds(1) [of "x * 2 ^ 53"] by simp
  then have "r \<le> (x * 2 ^ 53 + 1) / 2 ^ 53" unfolding r_def p by (simp add: divide_right_mono)
  also have "\<dots> \<le> 2" using x by (simp add: divide_le_eq)
  finally have "r \<le> 2" .
  moreover have "(2::rat) < pow2 1024" by (simp add: pow2_def)
  ultimately have fin: "\<not> pow2 1024 \<le> r" by linarith
  have "round_double x = Finite r"
    using x e fin by (simp add: round_double_def Let_def r_def m_def)
  then show ?thesis using half by (simp add: x_def)
qed

subsection \<open>The decision rule\<close>

lemma sum_list_ones: "sum_list (map (\<lambda>x. (1::int)) xs) = int (length xs)"
  by (induction xs) simp_all

lemma alt_count_bounds: "0 \<le> alt_count haploid valid" "alt_count haploid valid \<le> int (length valid)"
  by (simp_all add: alt_count_def sum_list_ones)

lemma true_div_ratio:
  assumes "total_of haploid gts \<noteq> 0"
  shows "true_div (alt_count haploid (valid_gts haploid gts)) (int (length (valid_gts haploid gts)))
           = Inr (ratio_of haploid gts)"
proof -
  let ?a = "alt_count haploid (valid_gts haploid gts)"
  let ?n = "int (length (valid_gts haploid gts))"
  have n: "0 < ?n" using assms by (simp add: total_of_def)
  have "0 \<le> (of_int ?a :: rat) / of_int ?n" "(of_int ?a :: rat) / of_int ?n \<le> 1"
    using n alt_count_bounds [of haploid "valid_gts haploid gts"] by (simp_all add: divide_le_eq)
  then obtain r where "round_double (of_int ?a / of_int ?n) = Finite r"
    using round_double_unit_finite by blast
  then show ?thesis
    using n by (simp add: true_div_def ratio_of_def alt_of_def total_of_def)
qed

lemma infer_unfold:
  assumes "min_drones \<le> total_of haploid gts" and "total_of haploid gts \<noteq> 0"
  shows "infer_queen_gt_from_list gts threshold min_drones haploid =
           Inr (if fl_less (ratio_of haploid gts) threshold then ''0/0''
                else if fl_less (one_minus threshold) (ratio_of haploid gts) then ''1/1''
                else ''0/1'')"
proof -
  have "\<not> int (length (valid_gts haploid gts)) < min_drones"
    using assms(1) by (simp add: total_of_def)
  then show ?thesis
    by (simp add: infer_queen_gt_from_list_def Let_def true_div_ratio [OF assms(2)])
qed

lemma open_interval_finite:
  assumes "fl_less (Finite 0) T" and "fl_less T (Finite (1 / 2))"
  obtains t where "T = Finite t" and "0 < t" and "t < 1 / 2"
  using assms by (cases T) simp_all

text \<open>
  Claim C1.  With at least \<open>M\<close> valid calls (\<open>M \<ge> 1\<close>) and a threshold \<open>T\<close> strictly
  between 0 and 0.5, the inference returns \<open>0/0\<close> when the ratio is below \<open>T\<close>,
  \<open>1/1\<close> when the ratio is above \<open>1 - T\<close>, and \<open>0/1\<close> otherwise; a ratio equal to
  \<open>T\<close> or to \<open>1 - T\<close> gives \<open>0/1\<close>.  The ratio is the float that
  \<^verbatim>\<open>alt_count / total\<close> returns and \<open>1 - T\<close> the float that \<^verbatim>\<open>1 - threshold\<close>
  returns; the comparisons are those of floats.
\<close>

theorem threshold_decision_rule:
  assumes "1 \<le> M" and "M \<le> total_of haploid gts"
    and "fl_less (Finite 0) T" and "fl_less T (Finite (1 / 2))"
  shows "(fl_less (ratio_of haploid gts) T \<longrightarrow>
            infer_queen_gt_from_list gts T M haploid = Inr ''0/0'')
       \<and> (fl_less (one_minus T) (ratio_of haploid gts) \<longrightarrow>
            infer_queen_gt_from_list gts T M haploid = Inr ''1/1'')
       \<and> (\<not> fl_less (ratio_of haploid gts) T \<and> \<not> fl_less (one_minus T) (ratio_of haploid gts) \<longrightarrow>
            infer_queen_gt_from_list gts T M haploid = Inr ''0/1'')
       \<and> (ratio_of haploid gts = T \<or> ratio_of haploid gts = one_minus T \<longrightarrow>
            infer_queen_gt_from_list gts T M haploid = Inr ''0/1'')"
proof -
  have nz: "total_of haploid gts \<noteq> 0" using assms(1,2) by linarith
  note u = infer_unfold [OF assms(2) nz, of T]
  from assms(3,4) obtain t where T: "T = Finite t" and t: "0 < t" "t < 1 / 2"
    by (rule open_interval_finite)
  from one_minus_at_least_half [OF t] obtain r where
    r: "one_minus (Finite t) = Finite r" "1 / 2 \<le> r" by blast
  have tr: "t < r" using t r(2) by linarith
  have excl: "\<not> fl_less (ratio_of haploid gts) T" if "fl_less (one_minus T) (ratio_of haploid gts)"
    using that tr by (cases "ratio_of haploid gts") (simp_all add: T r(1) del: one_minus.simps)
  have at_T: "\<not> fl_less T T" "\<not> fl_less (one_minus T) T"
    using tr by (simp_all add: T r(1) del: one_minus.simps)
  have at_one_minus: "\<not> fl_less (one_minus T) T" "\<not> fl_less (one_minus T) (one_minus T)"
    using tr by (simp_all add: T r(1) del: one_minus.simps)
  have c1: "fl_less (ratio_of haploid gts) T \<longrightarrow>
      infer_queen_gt_from_list gts T M haploid = Inr ''0/0''"
    using u by simp
  have c2: "fl_less (one_minus T) (ratio_of haploid gts) \<longrightarrow>
      infer_queen_gt_from_list gts T M haploid = Inr ''1/1''"
    using u excl by simp
  have c3: "\<not> fl_less (ratio_of haploid gts) T \<and> \<not> fl_less (one_minus T) (ratio_of haploid gts) \<longrightarrow>
      infer_queen_gt_from_list gts T M haploid = Inr ''0/1''"
    using u by simp
  have c4: "ratio_of haploid gts = T \<or> ratio_of haploid gts = one_minus T \<longrightarrow>
      infer_queen_gt_from_list gts T M haploid = Inr ''0/1''"
  proof
    assume "ratio_of haploid gts = T \<or> ratio_of haploid gts = one_minus T"
    then show "infer_queen_gt_from_list gts T M haploid = Inr ''0/1''"
    proof
      assume "ratio_of haploid gts = T"
      then show ?thesis using u at_T by simp
    next
      assume "ratio_of haploid gts = one_minus T"
      then show ?thesis using u at_one_minus by simp
    qed
  qed
  from c1 c2 c3 c4 show ?thesis by blast
qed

text \<open>
  The rule at four inputs: nine reference calls at threshold 0.125;
  17 alternate calls of 25 at the double nearest to 0.32, where the ratio is the
  double 0.68 and \<^verbatim>\<open>1 - threshold\<close> the double below it; one alternate call of
  10 at the double nearest to 0.1, which the ratio equals; one alternate call of
  four at threshold 0.25, which the ratio equals.
\<close>

lemma ratio_examples:
  "total_of False (replicate 9 ''0/0'') = 9"
  "ratio_of False (replicate 9 ''0/0'') = Finite 0"
  "total_of True (replicate 17 ''1'' @ replicate 8 ''0'') = 25"
  "ratio_of True (replicate 17 ''1'' @ replicate 8 ''0'') = Finite (6124895493223875 / 9007199254740992)"
  "one_minus (Finite (5764607523034235 / 18014398509481984)) = Finite (3062447746611937 / 4503599627370496)"
  "total_of True (replicate 9 ''0'' @ [''1'']) = 10"
  "ratio_of True (replicate 9 ''0'' @ [''1'']) = Finite (3602879701896397 / 36028797018963968)"
  "total_of False [''0/0'', ''0/0'', ''0/1'', ''0/0''] = 4"
  "ratio_of False [''0/0'', ''0/0'', ''0/1'', ''0/0''] = Finite (1 / 4)"
  by code_simp+

theorem threshold_decision_rule_witness:
  "infer_queen_gt_from_list (replicate 9 ''0/0'') (Finite (1 / 8)) 2 False = Inr ''0/0''
   \<and> infer_queen_gt_from_list (replicate 17 ''1'' @ replicate 8 ''0'')
        (Finite (5764607523034235 / 18014398509481984)) 2 True = Inr ''1/1''
   \<and> infer_queen_gt_from_list (replicate 9 ''0'' @ [''1''])
        (Finite (3602879701896397 / 36028797018963968)) 2 True = Inr ''0/1''
   \<and> infer_queen_gt_from_list [''0/0'', ''0/0'', ''0/1'', ''0/0''] (Finite (1 / 4)) 2 False = Inr ''0/1''"
proof -
  have a: "infer_queen_gt_from_list (replicate 9 ''0/0'') (Finite (1 / 8)) 2 False = Inr ''0/0''"
    using threshold_decision_rule [of 2 False "replicate 9 ''0/0''" "Finite (1 / 8)"]
    by (simp add: ratio_examples del: one_minus.simps)
  have b: "infer_queen_gt_from_list (replicate 17 ''1'' @ replicate 8 ''0'')
        (Finite (5764607523034235 / 18014398509481984)) 2 True = Inr ''1/1''"
    using threshold_decision_rule [of 2 True "replicate 17 ''1'' @ replicate 8 ''0''"
        "Finite (5764607523034235 / 18014398509481984)"]
    by (simp add: ratio_examples del: one_minus.simps)
  have c: "infer_queen_gt_from_list (replicate 9 ''0'' @ [''1''])
        (Finite (3602879701896397 / 36028797018963968)) 2 True = Inr ''0/1''"
    using threshold_decision_rule [of 2 True "replicate 9 ''0'' @ [''1'']"
        "Finite (3602879701896397 / 36028797018963968)"]
    by (simp add: ratio_examples del: one_minus.simps)
  have d: "infer_queen_gt_from_list [''0/0'', ''0/0'', ''0/1'', ''0/0''] (Finite (1 / 4)) 2 False = Inr ''0/1''"
    using threshold_decision_rule [of 2 False "[''0/0'', ''0/0'', ''0/1'', ''0/0'']" "Finite (1 / 4)"]
    by (simp add: ratio_examples del: one_minus.simps)
  from a b c d show ?thesis by blast
qed

lemma infer_below_min:
  "total_of haploid gts < min_drones \<Longrightarrow>
     infer_queen_gt_from_list gts threshold min_drones haploid = Inr ''./.''"
  by (simp add: infer_queen_gt_from_list_def Let_def total_of_def)

text \<open>
  Claim C2.  For \<open>M \<ge> 1\<close> the inference returns the missing call \<open>./.\<close> exactly
  when fewer than \<open>M\<close> calls are valid: \<open>total = M - 1\<close> gives the missing call,
  \<open>total = M\<close> gives the result of the threshold rule, on the floats that the
  code compares.
\<close>

theorem missing_iff_below_minimum:
  assumes "1 \<le> M"
  shows "(infer_queen_gt_from_list gts T M haploid = Inr ''./.'' \<longleftrightarrow> total_of haploid gts < M)
       \<and> (total_of haploid gts = M - 1 \<longrightarrow>
            infer_queen_gt_from_list gts T M haploid = Inr ''./.'')
       \<and> (total_of haploid gts = M \<longrightarrow>
            infer_queen_gt_from_list gts T M haploid =
              Inr (if fl_less (ratio_of haploid gts) T then ''0/0''
                   else if fl_less (one_minus T) (ratio_of haploid gts) then ''1/1''
                   else ''0/1''))"
proof -
  have rule: "infer_queen_gt_from_list gts T M haploid =
       Inr (if fl_less (ratio_of haploid gts) T then ''0/0''
            else if fl_less (one_minus T) (ratio_of haploid gts) then ''1/1''
            else ''0/1'')" if "M \<le> total_of haploid gts"
  proof -
    from that assms have "total_of haploid gts \<noteq> 0" by linarith
    with that show ?thesis by (rule infer_unfold)
  qed
  have "infer_queen_gt_from_list gts T M haploid \<noteq> Inr ''./.''" if "M \<le> total_of haploid gts"
    using rule [OF that] by simp
  then have iff: "infer_queen_gt_from_list gts T M haploid = Inr ''./.'' \<longleftrightarrow> total_of haploid gts < M"
    using infer_below_min [of haploid gts M T] by (cases "total_of haploid gts < M") auto
  have low: "total_of haploid gts = M - 1 \<longrightarrow> infer_queen_gt_from_list gts T M haploid = Inr ''./.''"
    using infer_below_min [of haploid gts M T] by simp
  from iff low rule show ?thesis by simp
qed

lemma minimum_examples:
  "total_of False [''0/0'', ''./.'', ''1/1''] = 3 - 1"
  "total_of False [''0/0'', ''./.'', ''1/1'', ''1/1''] = 3"
  "ratio_of False [''0/0'', ''./.'', ''1/1'', ''1/1''] = Finite (6004799503160661 / 9007199254740992)"
  "one_minus (Finite (1 / 8)) = Finite (7 / 8)"
  by code_simp+

theorem missing_iff_below_minimum_witness:
  "infer_queen_gt_from_list [''0/0'', ''./.'', ''1/1''] (Finite (1 / 8)) 3 False = Inr ''./.''
   \<and> infer_queen_gt_from_list [''0/0'', ''./.'', ''1/1'', ''1/1''] (Finite (1 / 8)) 3 False = Inr ''0/1''"
proof -
  have a: "infer_queen_gt_from_list [''0/0'', ''./.'', ''1/1''] (Finite (1 / 8)) 3 False = Inr ''./.''"
    using missing_iff_below_minimum [of 3 "[''0/0'', ''./.'', ''1/1'']" "Finite (1 / 8)" False]
      minimum_examples(1)
    by simp
  have b: "infer_queen_gt_from_list [''0/0'', ''./.'', ''1/1'', ''1/1''] (Finite (1 / 8)) 3 False = Inr ''0/1''"
    using missing_iff_below_minimum [of 3 "[''0/0'', ''./.'', ''1/1'', ''1/1'']" "Finite (1 / 8)" False]
    by (simp add: minimum_examples del: one_minus.simps)
  from a b show ?thesis by blast
qed

text \<open>
  Claim C4.  \<open>altCount\<close> is the number of valid calls that differ, as strings,
  from the reference form: from \<open>0\<close> in haploid mode, from \<open>0/0\<close> in diploid mode.
  Every other string counts, multi-allelic forms included.
\<close>

theorem alt_count_is_literal_comparison:
  "alt_of True gts = int (length (filter (\<lambda>gt. gt \<noteq> ''0'') (valid_gts True gts)))
   \<and> alt_of False gts = int (length (filter (\<lambda>gt. gt \<noteq> ''0/0'') (valid_gts False gts)))
   \<and> alt_of False [''0/0'', ''1/2'', ''0/1'', ''./.'', ''2/2''] = 3
   \<and> alt_of True [''0'', ''2'', ''1'', ''.'', ''0''] = 2"
  by (simp add: alt_of_def alt_count_def sum_list_ones) (simp add: valid_gts_def)

text \<open>
  Claim C10.  For \<open>M \<ge> 1\<close>, any list of strings, any threshold (an infinity and
  a NaN included) and either ploidy mode, the inference returns a value: the
  division is reached with a non-zero divisor only and its quotient is in
  range.  The value is one of \<open>./.\<close>, \<open>0/0\<close>, \<open>0/1\<close>, \<open>1/1\<close>.
\<close>

theorem infer_total_four_calls:
  assumes "1 \<le> M"
  shows "\<exists>call. infer_queen_gt_from_list gts T M haploid = Inr call
           \<and> call \<in> {''./.'', ''0/0'', ''0/1'', ''1/1''}"
proof (cases "total_of haploid gts < M")
  case True
  then show ?thesis by (simp add: infer_below_min)
next
  case False
  with assms have "M \<le> total_of haploid gts" "total_of haploid gts \<noteq> 0" by linarith+
  then show ?thesis by (simp add: infer_unfold)
qed

theorem infer_total_four_calls_witness:
  "\<exists>call. infer_queen_gt_from_list [''0'', ''1'', ''.'', ''1'', ''1''] (Finite (1 / 8)) 1 True = Inr call
           \<and> call \<in> {''./.'', ''0/0'', ''0/1'', ''1/1''}"
proof -
  have "(1::int) \<le> 1" by simp
  then show ?thesis by (rule infer_total_four_calls)
qed

text \<open>Without the bound \<open>M \<ge> 1\<close> the division can be reached with no valid call.\<close>

lemma infer_zero_min_raises:
  "infer_queen_gt_from_list [] T 0 haploid = Inl ZeroDivisionError"
  by (simp add: infer_queen_gt_from_list_def valid_gts_def true_div_def alt_count_def)

subsection \<open>Pedigree loaders\<close>

lemma split_ws_acc_no_space:
  assumes "\<forall>c \<in> set cur. \<not> is_space c" and "t \<in> set (split_ws_acc cur s)"
  shows "\<forall>c \<in> set t. \<not> is_space c"
  using assms
proof (induction s arbitrary: cur)
  case Nil
  then show ?case by (cases "cur = []") auto
next
  case (Cons c cs)
  show ?case
  proof (cases "is_space c")
    case True
    show ?thesis
    proof (cases "cur = []")
      case True
      with \<open>is_space c\<close> Cons.prems(2) have "t \<in> set (split_ws_acc [] cs)" by simp
      then show ?thesis using Cons.IH [of "[]"] by simp
    next
      case False
      with \<open>is_space c\<close> Cons.prems(2) have "t = rev cur \<or> t \<in> set (split_ws_acc [] cs)" by simp
      then show ?thesis
      proof
        assume "t = rev cur"
        then show ?thesis using Cons.prems(1) by simp
      next
        assume "t \<in> set (split_ws_acc [] cs)"
        then show ?thesis using Cons.IH [of "[]"] by simp
      qed
    qed
  next
    case False
    with Cons.prems(2) have "t \<in> set (split_ws_acc (c # cur) cs)" by simp
    moreover have "\<forall>x \<in> set (c # cur). \<not> is_space x" using False Cons.prems(1) by simp
    ultimately show ?thesis using Cons.IH [of "c # cur"] by blast
  qed
qed

lemma split_ws_no_space: "t \<in> set (split_ws s) \<Longrightarrow> \<forall>c \<in> set t. \<not> is_space c"
  unfolding split_ws_def using split_ws_acc_no_space [of "[]" t s] by simp

lemma dropWhile_none: "\<forall>c \<in> set t. \<not> P c \<Longrightarrow> dropWhile P t = t"
  by (cases t) simp_all

lemma strip_token: "\<forall>c \<in> set t. \<not> is_space c \<Longrightarrow> strip t = t"
  by (simp add: strip_def dropWhile_none)

lemma load_queen_map_snoc:
  "load_queen_map (ls @ [line]) = load_line line (load_queen_map ls)"
  by (simp add: load_queen_map_def)

lemma load_ids_snoc: "load_ids (ls @ [line]) = load_ids_line line (load_ids ls)"
  by (simp add: load_ids_def)

lemma load_ids_length: "length (fst (load_ids ls)) = length (snd (load_ids ls))"
proof (induction ls rule: rev_induct)
  case Nil
  show ?case by (simp add: load_ids_def)
next
  case (snoc line ls)
  then show ?case
    by (simp add: load_ids_snoc load_ids_line_def split: list.splits)
qed

lemma family_map_snoc:
  "length ds = length qs \<Longrightarrow>
     family_map (ds @ [d]) (qs @ [q]) = dict_append q d (family_map ds qs)"
  by (simp add: family_map_def)

lemma map_of_dict_append:
  "map_of (dict_append k v d) k = Some ((case map_of d k of None \<Rightarrow> [] | Some vs \<Rightarrow> vs) @ [v])"
  by (simp add: dict_append_def update_conv' split: option.splits)

text \<open>
  Claim C5, as the code has it.  On a line with at least two tokens, the loader
  of \<^verbatim>\<open>Untitled-1.py\<close> takes the first token as the queen and appends the second
  token to that queen's list of drones.  The loader of
  \<^verbatim>\<open>infer_queen_GT2_latest.py\<close> takes the first token as the drone and the
  second as its queen, and \<^verbatim>\<open>family_map\<close> appends the drone to the list of
  that queen.
\<close>

theorem pedigree_token_order:
  assumes "split_ws (strip line) = t1 # t2 # rest"
  shows "fst (load_queen_map (ls @ [line])) = dict_append t1 t2 (fst (load_queen_map ls))
       \<and> map_of (fst (load_queen_map (ls @ [line]))) t1 =
           Some ((case map_of (fst (load_queen_map ls)) t1 of None \<Rightarrow> [] | Some ds \<Rightarrow> ds) @ [t2])
       \<and> load_ids (ls @ [line]) = (fst (load_ids ls) @ [t1], snd (load_ids ls) @ [t2])
       \<and> family_of_list (ls @ [line]) = dict_append t2 t1 (family_of_list ls)
       \<and> map_of (family_of_list (ls @ [line])) t2 =
           Some ((case map_of (family_of_list ls) t2 of None \<Rightarrow> [] | Some ds \<Rightarrow> ds) @ [t1])"
proof -
  have main: "fst (load_queen_map (ls @ [line])) = dict_append t1 t2 (fst (load_queen_map ls))"
    using assms by (simp add: load_queen_map_snoc load_line_def)
  have "t1 \<in> set (split_ws (strip line))" "t2 \<in> set (split_ws (strip line))"
    using assms by simp_all
  then have s: "strip t1 = t1" "strip t2 = t2"
    by (simp_all add: split_ws_no_space strip_token)
  have ids: "load_ids (ls @ [line]) = (fst (load_ids ls) @ [t1], snd (load_ids ls) @ [t2])"
    using assms s by (simp add: load_ids_snoc load_ids_line_def)
  have fam: "family_of_list (ls @ [line]) = dict_append t2 t1 (family_of_list ls)"
    unfolding family_of_list_def ids
    by (simp add: family_map_snoc load_ids_length split: prod.splits)
  have m1: "map_of (fst (load_queen_map (ls @ [line]))) t1 =
           Some ((case map_of (fst (load_queen_map ls)) t1 of None \<Rightarrow> [] | Some ds \<Rightarrow> ds) @ [t2])"
    unfolding main by (rule map_of_dict_append)
  have m2: "map_of (family_of_list (ls @ [line])) t2 =
           Some ((case map_of (family_of_list ls) t2 of None \<Rightarrow> [] | Some ds \<Rightarrow> ds) @ [t1])"
    unfolding fam by (rule map_of_dict_append)
  from main m1 ids fam m2 show ?thesis by blast
qed

lemma split_two_tokens:
  "split_ws (strip (''q1 d2'' @ [newline])) = ''q1'' # ''d2'' # []"
  "split_ws (strip (''d2 q1'' @ [newline])) = ''d2'' # ''q1'' # []"
  by (simp_all add: split_ws_def strip_def is_space_def)

lemma load_one_line:
  "fst (load_queen_map [''q1 d1'']) = [(''q1'', [''d1''])]"
  "family_of_list [''d1 q1''] = [(''q1'', [''d1''])]"
  by (simp_all add: family_of_list_def load_ids_def load_ids_line_def family_map_def
      load_queen_map_def load_line_def split_ws_def strip_def is_space_def dict_append_def)

theorem pedigree_token_order_witness:
  "fst (load_queen_map ([''q1 d1''] @ [''q1 d2'' @ [newline]])) = [(''q1'', [''d1'', ''d2''])]
   \<and> family_of_list ([''d1 q1''] @ [''d2 q1'' @ [newline]]) = [(''q1'', [''d1'', ''d2''])]"
proof -
  have a: "fst (load_queen_map ([''q1 d1''] @ [''q1 d2'' @ [newline]])) =
      dict_append ''q1'' ''d2'' (fst (load_queen_map [''q1 d1'']))"
    using pedigree_token_order [OF split_two_tokens(1), of "[''q1 d1'']"] by blast
  have b: "family_of_list ([''d1 q1''] @ [''d2 q1'' @ [newline]]) =
      dict_append ''q1'' ''d2'' (family_of_list [''d1 q1''])"
    using pedigree_token_order [OF split_two_tokens(2), of "[''d1 q1'']"] by blast
  have c: "dict_append ''q1'' ''d2'' [(''q1'', [''d1''])] = [(''q1'', [''d1'', ''d2''])]"
    by (simp add: dict_append_def)
  show ?thesis
    unfolding a b load_one_line c by simp
qed

text \<open>
  The claim as the specification words it fails on the loader of
  \<^verbatim>\<open>Untitled-1.py\<close>: on the line \<open>drone1 queenA\<close> the map gets the key
  \<open>drone1\<close>, with \<open>queenA\<close> in its list.
\<close>

theorem pedigree_first_token_counterexample:
  "split_ws (strip (''drone1 queenA'' @ [newline])) = [''drone1'', ''queenA'']
   \<and> fst (load_queen_map [''drone1 queenA'' @ [newline]]) = [(''drone1'', [''queenA''])]
   \<and> fst (load_queen_map [''drone1 queenA'' @ [newline]]) \<noteq> dict_append ''queenA'' ''drone1'' []"
  by (simp add: load_queen_map_def load_line_def split_ws_def strip_def is_space_def dict_append_def)

subsection \<open>The merge of the task results\<close>

lemma merge_items_total:
  assumes "fst ` set items \<subseteq> fst ` set info"
  shows "\<exists>acc'. merge_items queen info items acc = Inr acc'
           \<and> (\<forall>k. map_of (snd acc') k =
                 (if k \<in> fst ` set items then map_of info k else map_of (snd acc) k))"
  using assms
proof (induction items arbitrary: acc)
  case Nil
  show ?case by simp
next
  case (Cons item items)
  obtain vk gt where item: "item = (vk, gt)" by (cases item)
  from Cons.prems item have "vk \<in> fst ` set info" by simp
  then obtain ic where ic: "map_of info vk = Some ic"
    by (metis domD dom_map_of_conv_image_fst)
  let ?acc = "(dict_set_nested vk queen gt (fst acc), AList.update vk ic (snd acc))"
  from Cons.prems have "fst ` set items \<subseteq> fst ` set info" by simp
  from Cons.IH [OF this, of ?acc] obtain acc' where
    r: "merge_items queen info items ?acc = Inr acc'" and
    m: "\<forall>k. map_of (snd acc') k =
          (if k \<in> fst ` set items then map_of info k else map_of (snd ?acc) k)"
    by blast
  have "merge_items queen info (item # items) acc = Inr acc'"
    using item ic r by simp
  moreover have "\<forall>k. map_of (snd acc') k =
      (if k \<in> fst ` set (item # items) then map_of info k else map_of (snd acc) k)"
    using m item ic by (simp add: update_conv')
  ultimately show ?case by blast
qed

lemma gather_append:
  "gather (xs @ ys) acc = (case gather xs acc of Inl e \<Rightarrow> Inl e | Inr acc' \<Rightarrow> gather ys acc')"
  by (induction xs arbitrary: acc) (simp_all split: sum.splits)

lemma gather_total:
  assumes "\<forall>r \<in> set rs. fst ` set (fst (snd r)) \<subseteq> fst ` set (snd (snd r))"
  shows "\<exists>acc'. gather (map Inr rs) acc = Inr acc'"
  using assms
proof (induction rs arbitrary: acc)
  case Nil
  show ?case by simp
next
  case (Cons r rs)
  obtain q gts info where r: "r = (q, gts, info)" by (cases r)
  with Cons.prems have "fst ` set gts \<subseteq> fst ` set info" by simp
  from merge_items_total [OF this, of q acc] obtain acc1 where
    "merge_items q info gts acc = Inr acc1" by blast
  moreover from Cons have "\<exists>acc'. gather (map Inr rs) acc1 = Inr acc'" by simp
  ultimately show ?case using r by (simp add: merge_result_def)
qed

text \<open>
  Claim C6, as the code has it.  The merge has no consistency check.  When
  every result has annotation columns for each of its variant keys, the merge
  of any list of results returns normally, and the annotation columns kept for a
  key of the result merged last are the ones of that result, whatever the
  earlier results held for the key.
\<close>

theorem merge_keeps_last_annotation:
  assumes "\<forall>r \<in> set (rs @ [(q, gts, info)]). fst ` set (fst (snd r)) \<subseteq> fst ` set (snd (snd r))"
  shows "\<exists>acc'. gather (map Inr (rs @ [(q, gts, info)])) acc = Inr acc'
           \<and> (\<forall>k \<in> fst ` set gts. map_of (snd acc') k = map_of info k)"
proof -
  from assms have "\<forall>r \<in> set rs. fst ` set (fst (snd r)) \<subseteq> fst ` set (snd (snd r))"
    by simp
  from gather_total [OF this, of acc] obtain acc1 where
    g1: "gather (map Inr rs) acc = Inr acc1" by blast
  from assms have "fst ` set gts \<subseteq> fst ` set info" by simp
  from merge_items_total [OF this, of q acc1] obtain acc' where
    m: "merge_items q info gts acc1 = Inr acc'" and
    k: "\<forall>k. map_of (snd acc') k =
          (if k \<in> fst ` set gts then map_of info k else map_of (snd acc1) k)"
    by blast
  have "gather (map Inr (rs @ [(q, gts, info)])) acc = Inr acc'"
    using g1 m by (simp add: gather_append merge_result_def)
  moreover have "\<forall>k \<in> fst ` set gts. map_of (snd acc') k = map_of info k"
    using k by simp
  ultimately show ?thesis by blast
qed

theorem merge_keeps_last_annotation_witness:
  "\<exists>acc'. gather (map Inr ([(''qA'', [(''k'', ''0/0'')], [(''k'', [''PASS''])])]
                            @ [(''qB'', [(''k'', ''0/1'')], [(''k'', [''LowQual''])])])) ([], [])
              = Inr acc'
         \<and> (\<forall>k \<in> fst ` set [(''k'', ''0/1'')]. map_of (snd acc') k = map_of [(''k'', [''LowQual''])] k)"
proof -
  have "\<forall>r \<in> set ([(''qA'', [(''k'', ''0/0'')], [(''k'', [''PASS''])])]
                    @ [(''qB'', [(''k'', ''0/1'')], [(''k'', [''LowQual''])])]).
          fst ` set (fst (snd r)) \<subseteq> fst ` set (snd (snd r))"
    by simp
  then show ?thesis by (rule merge_keeps_last_annotation)
qed

text \<open>
  Two results with different annotation columns for the same key: the merge
  returns normally and keeps the columns of the second result.
\<close>

theorem merge_inconsistent_counterexample:
  "gather [Inr (''qA'', [(''k'', ''0/0'')], [(''k'', [''PASS''])]),
           Inr (''qB'', [(''k'', ''0/1'')], [(''k'', [''LowQual''])])] ([], [])
     = Inr ([(''k'', [(''qA'', ''0/0''), (''qB'', ''0/1'')])], [(''k'', [''LowQual''])])"
  by (simp add: merge_result_def dict_set_nested_def)

subsection \<open>A variant file without a sample-header line before its data rows\<close>

lemma find_header_line_skip:
  "\<forall>line \<in> set pre. \<not> startswith line ''#CHROM'' \<Longrightarrow>
     find_header_line (pre @ rest) = find_header_line rest"
  by (induction pre) simp_all

lemma extract_samples_skip:
  "\<forall>line \<in> set pre. \<not> startswith line ''#CHROM'' \<Longrightarrow>
     extract_samples_from_header (pre @ rest) = extract_samples_from_header rest"
  by (induction pre) simp_all

lemma write_header_skip:
  "\<forall>line \<in> set pre. \<not> startswith line ''#CHROM'' \<Longrightarrow>
     write_header (pre @ rest) queen_names
       = filter (\<lambda>line. startswith line ''##'') pre @ write_header rest queen_names"
  by (induction pre) simp_all

lemma split_at_header:
  "input_vcf = before_header input_vcf @ from_header input_vcf"
  "\<forall>line \<in> set (before_header input_vcf). \<not> startswith line ''#CHROM''"
  by (auto simp: before_header_def from_header_def dest: set_takeWhileD)

lemma get_queen_genotypes_skip:
  "get_queen_genotypes input_vcf queen drones T M haploid
     = get_queen_genotypes (from_header input_vcf) queen drones T M haploid"
proof -
  have "find_header_line input_vcf = find_header_line (from_header input_vcf)"
    using find_header_line_skip [OF split_at_header(2), of input_vcf "from_header input_vcf"]
      split_at_header(1) [of input_vcf] by simp
  then show ?thesis by (simp add: get_queen_genotypes_def)
qed

lemma main_skip:
  "main list_lines input_vcf T M haploid
     = (case main list_lines (from_header input_vcf) T M haploid of
          Inl e \<Rightarrow> Inl e
        | Inr out \<Rightarrow> Inr (filter (\<lambda>line. startswith line ''##'') (before_header input_vcf) @ out))"
proof -
  have tasks: "submit_tasks input_vcf qm T M haploid = submit_tasks (from_header input_vcf) qm T M haploid"
    for qm
    unfolding submit_tasks_def using get_queen_genotypes_skip [of input_vcf] by simp
  have hdr: "write_header input_vcf qs
      = filter (\<lambda>line. startswith line ''##'') (before_header input_vcf)
        @ write_header (from_header input_vcf) qs" for qs
    using write_header_skip [OF split_at_header(2), of input_vcf "from_header input_vcf" qs]
      split_at_header(1) [of input_vcf] by simp
  have wr: "write_combined_vcf input_vcf qs g i
      = (case write_combined_vcf (from_header input_vcf) qs g i of
           Inl e \<Rightarrow> Inl e
         | Inr out \<Rightarrow> Inr (filter (\<lambda>line. startswith line ''##'') (before_header input_vcf) @ out))"
    for qs g i
    by (simp add: write_combined_vcf_def hdr split: sum.splits)
  show ?thesis
    by (simp add: main_def Let_def tasks wr split: sum.splits prod.splits)
qed

lemma no_header_data_row_first:
  "\<not> header_before_data input_vcf \<Longrightarrow> from_header input_vcf \<noteq> [] \<Longrightarrow>
     \<exists>row \<in> set (before_header input_vcf). \<not> startswith row ''#''"
proof (induction input_vcf)
  case Nil
  then show ?case by (simp add: from_header_def)
next
  case (Cons line f)
  show ?case
  proof (cases "startswith line ''#CHROM''")
    case True
    with Cons.prems show ?thesis by simp
  next
    case False
    show ?thesis
    proof (cases "startswith line ''#''")
      case True
      with False Cons show ?thesis by (simp add: from_header_def before_header_def)
    next
      case False
      with \<open>\<not> startswith line ''#CHROM''\<close> show ?thesis by (simp add: before_header_def)
    qed
  qed
qed

lemma main_empty_file:
  "main list_lines [] T M haploid =
     (if fst (load_queen_map list_lines) = [] then Inr []
      else Inl (ValueError ''No #CHROM line found in VCF''))"
proof (cases "fst (load_queen_map list_lines)")
  case Nil
  then show ?thesis
    by (simp add: main_def Let_def submit_tasks_def write_combined_vcf_def sorted_variant_keys_def)
next
  case (Cons qd rest)
  obtain q ds where "qd = (q, ds)" by (cases qd)
  with Cons show ?thesis
    by (simp add: main_def Let_def submit_tasks_def get_queen_genotypes_def)
qed

text \<open>
  Claim C7, as the code has it.  Let the variant file have no sample-header
  line before its data rows.  Nothing fails for that reason: the header scan,
  every per-queen task and the run give what they give on the file from its
  first \<^verbatim>\<open>#CHROM\<close> line on, the run writing the earlier \<^verbatim>\<open>##\<close> lines in front.
  When a \<^verbatim>\<open>#CHROM\<close> line follows, a data row precedes it and is left out.  When
  there is no \<^verbatim>\<open>#CHROM\<close> line at all, the header scan gives the empty sample
  list, every per-queen task gives the \<^verbatim>\<open>ValueError\<close>
  \<open>No #CHROM line found in VCF\<close>, the run gives that error when the pedigree has
  a queen, and with no queen it gives the \<^verbatim>\<open>##\<close> lines of the file.
\<close>

theorem missing_header_behaviour:
  assumes "\<not> header_before_data input_vcf"
  shows "extract_samples_from_header input_vcf = extract_samples_from_header (from_header input_vcf)
       \<and> get_queen_genotypes input_vcf queen drones T M haploid
           = get_queen_genotypes (from_header input_vcf) queen drones T M haploid
       \<and> main list_lines input_vcf T M haploid
           = (case main list_lines (from_header input_vcf) T M haploid of
                Inl e \<Rightarrow> Inl e
              | Inr out \<Rightarrow>
                  Inr (filter (\<lambda>line. startswith line ''##'') (before_header input_vcf) @ out))
       \<and> (from_header input_vcf \<noteq> [] \<longrightarrow>
            (\<exists>row \<in> set (before_header input_vcf). \<not> startswith row ''#''))
       \<and> (from_header input_vcf = [] \<longrightarrow>
            extract_samples_from_header input_vcf = []
          \<and> get_queen_genotypes input_vcf queen drones T M haploid
               = Inl (ValueError ''No #CHROM line found in VCF'')
          \<and> (fst (load_queen_map list_lines) \<noteq> [] \<longrightarrow>
               main list_lines input_vcf T M haploid
                 = Inl (ValueError ''No #CHROM line found in VCF''))
          \<and> (fst (load_queen_map list_lines) = [] \<longrightarrow>
               main list_lines input_vcf T M haploid
                 = Inr (filter (\<lambda>line. startswith line ''##'') input_vcf)))"
proof -
  have ex: "extract_samples_from_header input_vcf = extract_samples_from_header (from_header input_vcf)"
    using extract_samples_skip [OF split_at_header(2), of input_vcf "from_header input_vcf"]
      split_at_header(1) [of input_vcf] by simp
  note task = get_queen_genotypes_skip [of input_vcf queen drones T M haploid]
  note run = main_skip [of list_lines input_vcf T M haploid]
  have late: "from_header input_vcf \<noteq> [] \<longrightarrow>
      (\<exists>row \<in> set (before_header input_vcf). \<not> startswith row ''#'')"
    using assms no_header_data_row_first by blast
  have none: "extract_samples_from_header input_vcf = []
      \<and> get_queen_genotypes input_vcf queen drones T M haploid
           = Inl (ValueError ''No #CHROM line found in VCF'')
      \<and> (fst (load_queen_map list_lines) \<noteq> [] \<longrightarrow>
           main list_lines input_vcf T M haploid = Inl (ValueError ''No #CHROM line found in VCF''))
      \<and> (fst (load_queen_map list_lines) = [] \<longrightarrow>
           main list_lines input_vcf T M haploid
             = Inr (filter (\<lambda>line. startswith line ''##'') input_vcf))"
    if e: "from_header input_vcf = []"
  proof -
    have b: "before_header input_vcf = input_vcf"
      using split_at_header(1) [of input_vcf] e by simp
    have "extract_samples_from_header input_vcf = []" using ex e by simp
    moreover have "get_queen_genotypes input_vcf queen drones T M haploid
        = Inl (ValueError ''No #CHROM line found in VCF'')"
      using task e by (simp add: get_queen_genotypes_def)
    moreover have "fst (load_queen_map list_lines) \<noteq> [] \<longrightarrow>
        main list_lines input_vcf T M haploid = Inl (ValueError ''No #CHROM line found in VCF'')"
      using run e by (simp add: main_empty_file)
    moreover have "fst (load_queen_map list_lines) = [] \<longrightarrow>
        main list_lines input_vcf T M haploid
          = Inr (filter (\<lambda>line. startswith line ''##'') input_vcf)"
      using run e b by (simp add: main_empty_file)
    ultimately show ?thesis by blast
  qed
  from ex task run late none show ?thesis by blast
qed

lemma late_header_file:
  "\<not> header_before_data late_header_vcf"
  "from_header late_header_vcf = tl late_header_vcf"
  "from_header late_header_vcf \<noteq> []"
  by (simp_all add: late_header_vcf_def from_header_def startswith_def)

lemma headerless_file:
  "\<not> header_before_data headerless_vcf"
  "from_header headerless_vcf = []"
  by (simp_all add: headerless_vcf_def from_header_def startswith_def)

lemma one_queen_pedigree:
  "fst (load_queen_map [''q1 d1'' @ [newline]]) \<noteq> []"
  by (simp add: load_queen_map_def load_line_def split_ws_def strip_def is_space_def dict_append_def)

theorem missing_header_behaviour_witness:
  "(\<exists>row \<in> set (before_header late_header_vcf). \<not> startswith row ''#'')
   \<and> get_queen_genotypes late_header_vcf ''q1'' [''d1'', ''d2''] (Finite (1 / 8)) 2 False
     = get_queen_genotypes (tl late_header_vcf) ''q1'' [''d1'', ''d2''] (Finite (1 / 8)) 2 False
   \<and> main [''q1 d1'' @ [newline]] headerless_vcf (Finite (1 / 8)) 2 False
     = Inl (ValueError ''No #CHROM line found in VCF'')"
proof -
  note late = missing_header_behaviour [OF late_header_file(1),
      where queen = "''q1''" and drones = "[''d1'', ''d2'']" and T = "Finite (1 / 8)" and M = 2
        and haploid = False and list_lines = "[]"]
  note none = missing_header_behaviour [OF headerless_file(1),
      where queen = "''q1''" and drones = "[''d1'']" and T = "Finite (1 / 8)" and M = 2
        and haploid = False and list_lines = "[''q1 d1'' @ [newline]]"]
  have a: "\<exists>row \<in> set (before_header late_header_vcf). \<not> startswith row ''#''"
    using late late_header_file(3) by blast
  have "get_queen_genotypes late_header_vcf ''q1'' [''d1'', ''d2''] (Finite (1 / 8)) 2 False
     = get_queen_genotypes (from_header late_header_vcf) ''q1'' [''d1'', ''d2''] (Finite (1 / 8)) 2 False"
    using late by blast
  then have b: "get_queen_genotypes late_header_vcf ''q1'' [''d1'', ''d2''] (Finite (1 / 8)) 2 False
     = get_queen_genotypes (tl late_header_vcf) ''q1'' [''d1'', ''d2''] (Finite (1 / 8)) 2 False"
    by (simp only: late_header_file(2))
  have c: "main [''q1 d1'' @ [newline]] headerless_vcf (Finite (1 / 8)) 2 False
     = Inl (ValueError ''No #CHROM line found in VCF'')"
    using none headerless_file(2) one_queen_pedigree by blast
  from a b c show ?thesis by blast
qed

text \<open>
  The claim as the specification words it fails.  With a data row before the
  sample-header line the run returns normally and the output has no row for the
  site \<open>1:100\<close>.  With no sample-header line at all the header scan returns the
  empty list, the error is the outcome of the submitted task, and a run with an
  empty pedigree returns normally.
\<close>

theorem no_header_line_counterexample:
  "main [''q1 d1'' @ [newline], ''q1 d2'' @ [newline]] late_header_vcf (Finite (1 / 8)) 2 False
     = Inr [join [tab] [''#CHROM'', ''POS'', ''ID'', ''REF'', ''ALT'', ''QUAL'', ''FILTER'', ''INFO'', ''FORMAT'', ''q1''] @ [newline],
            join [tab] [''1'', ''200'', ''.'', ''G'', ''C'', ''.'', ''PASS'', ''.'', ''GT'', ''0/0''] @ [newline]]
   \<and> extract_samples_from_header headerless_vcf = []
   \<and> submit_tasks headerless_vcf [(''q1'', [''d1''])] (Finite (1 / 8)) 2 False
     = [Inl (ValueError ''No #CHROM line found in VCF'')]
   \<and> main [] headerless_vcf (Finite (1 / 8)) 2 False = Inr [''##fileformat=VCFv4.2'' @ [newline]]"
  by code_simp

subsection \<open>The order of the data rows\<close>

lemma str_less_iff: "str_less a b \<longleftrightarrow> a < b"
  by (induction a b rule: str_less.induct) (auto simp: less_char_def)

lemma digit_char_props:
  assumes "d < 10"
  shows "is_digit (digit_char d)" and "digit_val (digit_char d) = int d"
    and "digit_char d \<noteq> CHR ''_''" and "digit_char d \<noteq> tab"
proof -
  have v: "of_char (digit_char d) = 48 + d"
    using assms by (simp add: digit_char_def)
  show "is_digit (digit_char d)"
    using assms by (simp add: is_digit_def less_eq_char_def v)
  show "digit_val (digit_char d) = int d"
    by (simp add: digit_val_def v)
  have "of_char (digit_char d) \<noteq> (of_char (CHR ''_'') :: nat)"
    "of_char (digit_char d) \<noteq> (of_char tab :: nat)"
    using assms unfolding v by simp_all
  then show "digit_char d \<noteq> CHR ''_''" "digit_char d \<noteq> tab" by auto
qed

lemma is_digit_not_other:
  assumes "is_digit c"
  shows "\<not> is_int_space c" and "c \<noteq> CHR ''_''" and "c \<noteq> tab" and "c \<noteq> CHR ''-''" and "c \<noteq> CHR ''+''"
  using assms by (auto simp: is_digit_def is_int_space_def less_eq_char_def)

lemma show_nat_digits: "show_nat n \<noteq> [] \<and> (\<forall>c \<in> set (show_nat n). is_digit c)"
proof (induction n rule: show_nat.induct)
  case (1 n)
  show ?case
  proof (cases "n < 10")
    case True
    then show ?thesis by (simp add: show_nat.simps [of n] digit_char_props)
  next
    case False
    then show ?thesis using 1 by (simp add: show_nat.simps [of n] digit_char_props)
  qed
qed

lemma digits_value_snoc:
  "c \<noteq> CHR ''_'' \<Longrightarrow> digits_value (ds @ [c]) = 10 * digits_value ds + digit_val c"
  by (simp add: digits_value_def)

lemma digits_value_show_nat: "digits_value (show_nat n) = int n"
proof (induction n rule: show_nat.induct)
  case (1 n)
  show ?case
  proof (cases "n < 10")
    case True
    then show ?thesis
      by (simp add: show_nat.simps [of n] digits_value_def digit_char_props)
  next
    case False
    have "digits_value (show_nat n) = 10 * digits_value (show_nat (n div 10)) + digit_val (digit_char (n mod 10))"
      using False by (simp add: show_nat.simps [of n] digits_value_snoc digit_char_props)
    also have "\<dots> = 10 * int (n div 10) + int (n mod 10)"
      using 1 False by (simp add: digit_char_props)
    also have "\<dots> = int n" by (simp add: zdiv_int zmod_int)
    finally show ?thesis .
  qed
qed

lemma digits_wellformed_digits:
  "ds \<noteq> [] \<Longrightarrow> \<forall>c \<in> set ds. is_digit c \<Longrightarrow> digits_wellformed ds"
  by (induction ds rule: digits_wellformed.induct) simp_all

lemma int_strip_id:
  assumes "s \<noteq> []" and "\<not> is_int_space (hd s)" and "\<not> is_int_space (last s)"
  shows "int_strip s = s"
proof -
  have a: "dropWhile is_int_space s = s" using assms(1,2) by (cases s) simp_all
  have "dropWhile is_int_space (rev s) = rev s"
    using assms(1,3) by (cases "rev s") (simp_all add: hd_rev [symmetric])
  then show ?thesis by (simp add: int_strip_def a)
qed

text \<open>\<^verbatim>\<open>int\<close> reads the numeral of an integer back.\<close>

lemma py_int_show_int: "py_int (show_int i) = Inr i"
proof -
  let ?ds = "show_nat (nat \<bar>i\<bar>)"
  have ne: "?ds \<noteq> []" and dg: "\<forall>c \<in> set ?ds. is_digit c"
    using show_nat_digits [of "nat \<bar>i\<bar>"] by simp_all
  have hd_d: "is_digit (hd ?ds)" and last_d: "is_digit (last ?ds)"
    using ne dg by simp_all
  have wf: "digits_wellformed ?ds" using ne dg by (rule digits_wellformed_digits)
  have val: "digits_value ?ds = \<bar>i\<bar>" by (simp add: digits_value_show_nat)
  show ?thesis
  proof (cases "i < 0")
    case True
    then have s: "show_int i = CHR ''-'' # ?ds" by (simp add: show_int_def)
    have "\<not> is_int_space (CHR ''-'')" by (simp add: is_int_space_def)
    moreover have "\<not> is_int_space (last (CHR ''-'' # ?ds))"
      using ne last_d is_digit_not_other(1) by simp
    ultimately have "int_strip (CHR ''-'' # ?ds) = CHR ''-'' # ?ds"
      by (intro int_strip_id) simp_all
    then show ?thesis
      using True ne hd_d wf val by (simp add: py_int_def s)
  next
    case False
    then have s: "show_int i = ?ds" by (simp add: show_int_def)
    have "int_strip ?ds = ?ds"
      using ne hd_d last_d is_digit_not_other(1) by (intro int_strip_id) simp_all
    moreover have "hd ?ds \<noteq> CHR ''-''" "hd ?ds \<noteq> CHR ''+''"
      using hd_d is_digit_not_other by blast+
    ultimately show ?thesis
      using False ne hd_d wf val by (cases ?ds) (simp_all add: py_int_def s)
  qed
qed

lemma show_int_no_tab: "tab \<notin> set (show_int i)"
proof -
  have "tab \<notin> set (show_nat n)" for n
    using show_nat_digits [of n] is_digit_not_other(3) by blast
  then show ?thesis by (simp add: show_int_def)
qed

lemma split_on_nonempty: "split_on sep s \<noteq> []"
  by (induction s) (simp_all split: list.splits)

lemma split_on_first_field:
  "sep \<notin> set a \<Longrightarrow> split_on sep (a @ sep # b) = a # split_on sep b"
proof (induction a)
  case Nil
  show ?case by simp
next
  case (Cons c a)
  then have "c \<noteq> sep" "split_on sep (a @ sep # b) = a # split_on sep b" by auto
  then show ?case by simp
qed

text \<open>The sort key of the key text of a site is its chromosome and position.\<close>

lemma variant_key_sorter_render:
  assumes "tab \<notin> set (chrom v)"
  shows "variant_key_sorter (render_key v) = Inr (chrom v, pos v)"
proof -
  have "render_key v = chrom v @ tab # (show_int (pos v) @ tab # join [tab] [ident v, ref_allele v, alt_alleles v])"
    by (simp add: render_key_def)
  then have "split_on tab (render_key v) =
      chrom v # show_int (pos v) # split_on tab (join [tab] [ident v, ref_allele v, alt_alleles v])"
    using assms show_int_no_tab by (simp add: split_on_first_field)
  then show ?thesis
    by (simp add: variant_key_sorter_def py_int_show_int)
qed

lemma decorate_render:
  "\<forall>v \<in> set vs. tab \<notin> set (chrom v) \<Longrightarrow>
     decorate (map render_key vs) = Inr (map (\<lambda>v. ((chrom v, pos v), render_key v)) vs)"
  by (induction vs) (simp_all add: variant_key_sorter_render)

lemma insort_key_map_pair:
  "insort_key fst (k x, g x) (map (\<lambda>y. (k y, g y)) ys) = map (\<lambda>y. (k y, g y)) (insort_key k x ys)"
  by (induction ys) simp_all

lemma sort_key_map_pair:
  "sort_key fst (map (\<lambda>y. (k y, g y)) xs) = map (\<lambda>y. (k y, g y)) (sort_key k xs)"
  by (induction xs) (simp_all add: insort_key_map_pair)

lemma sorted_variant_keys_render:
  assumes "\<forall>v \<in> set vs. tab \<notin> set (chrom v)"
  shows "sorted_variant_keys (map render_key vs)
           = Inr (map render_key (sort_key (\<lambda>v. (chrom v, pos v)) vs))"
  by (simp add: sorted_variant_keys_def decorate_render [OF assms] sort_key_map_pair comp_def)

lemma sort_key_variant_le:
  fixes vs :: "variant list"
  shows "sorted_wrt variant_le (sort_key (\<lambda>v. (chrom v, pos v)) vs)"
proof -
  let ?s = "sort_key (\<lambda>v. (chrom v, pos v)) vs"
  have "sorted (map (\<lambda>v. (chrom v, pos v)) ?s)" by (rule sorted_sort_key)
  then have "sorted_wrt (\<lambda>a b :: variant. (chrom a, pos a) \<le> (chrom b, pos b)) ?s"
    by (simp add: sorted_map)
  then show ?thesis
  proof (rule sorted_wrt_mono_rel [rotated])
    fix a b :: variant
    assume "(chrom a, pos a) \<le> (chrom b, pos b)"
    then show "variant_le a b"
      by (auto simp: variant_le_def str_less_iff less_eq_prod_def)
  qed
qed

lemma write_rows_length:
  "write_rows ks queen_names all_genotypes info_map = Inr rows \<Longrightarrow> length rows = length ks"
proof (induction ks arbitrary: rows)
  case Nil
  then show ?case by simp
next
  case (Cons k ks)
  then show ?case by (auto split: option.splits sum.splits)
qed

text \<open>
  Claim C8.  Let the keys of the merged table be the key texts of sites whose
  chromosome names hold no tab.  When \<^verbatim>\<open>write_combined_vcf\<close> writes a file, the
  data rows follow the header, one row for each site, and the sites are in an
  order sorted by chromosome as a string (character by character, so \<open>10\<close>
  comes before \<open>2\<close>) and, within a chromosome, by position as an integer (so
  position 9 comes before position 10).
\<close>

theorem rows_sorted_by_variant_key:
  assumes "map fst all_genotypes = map render_key vs"
    and "\<forall>v \<in> set vs. tab \<notin> set (chrom v)"
    and "write_combined_vcf input_vcf queen_names all_genotypes info_map = Inr out"
  shows "\<exists>svs rows.
           out = write_header input_vcf queen_names @ rows
         \<and> write_rows (map render_key svs) queen_names all_genotypes info_map = Inr rows
         \<and> length rows = length svs
         \<and> mset svs = mset vs
         \<and> sorted_wrt variant_le svs
         \<and> str_less ''10'' ''2''"
proof -
  let ?svs = "sort_key (\<lambda>v. (chrom v, pos v)) vs"
  have ks: "sorted_variant_keys (map fst all_genotypes) = Inr (map render_key ?svs)"
    unfolding assms(1) using assms(2) by (rule sorted_variant_keys_render)
  with assms(3) obtain rows where
    rows: "write_rows (map render_key ?svs) queen_names all_genotypes info_map = Inr rows" and
    out: "out = write_header input_vcf queen_names @ rows"
    by (auto simp: write_combined_vcf_def split: sum.splits)
  have "length rows = length ?svs" using write_rows_length [OF rows] by simp
  moreover have "mset ?svs = mset vs" by simp
  moreover have "sorted_wrt variant_le ?svs" by (rule sort_key_variant_le)
  moreover have "str_less ''10'' ''2''" by simp
  ultimately show ?thesis using rows out by blast
qed

text \<open>
  Three sites: chromosome \<open>2\<close> at position 5, chromosome \<open>10\<close> at positions
  10 and 9.  The rows are written for \<open>10:9\<close>, \<open>10:10\<close>, \<open>2:5\<close>.
\<close>

lemma write_example:
  "write_combined_vcf
     [join [tab] [''#CHROM'', ''POS'', ''ID'', ''REF'', ''ALT'', ''QUAL'', ''FILTER'', ''INFO'', ''FORMAT'', ''d1''] @ [newline]]
     [''q1'']
     [(render_key site_a, [(''q1'', ''0/0'')]),
      (render_key site_b, [(''q1'', ''0/1'')]),
      (render_key site_c, [(''q1'', ''1/1'')])]
     [(render_key site_a, [''2'', ''5'', ''.'', ''A'', ''T'', ''.'', ''PASS'', ''.'', ''GT'']),
      (render_key site_b, [''10'', ''10'', ''.'', ''G'', ''C'', ''.'', ''PASS'', ''.'', ''GT'']),
      (render_key site_c, [''10'', ''9'', ''.'', ''C'', ''A'', ''.'', ''PASS'', ''.'', ''GT''])]
   = Inr [join [tab] [''#CHROM'', ''POS'', ''ID'', ''REF'', ''ALT'', ''QUAL'', ''FILTER'', ''INFO'', ''FORMAT'', ''q1''] @ [newline],
          join [tab] [''10'', ''9'', ''.'', ''C'', ''A'', ''.'', ''PASS'', ''.'', ''GT'', ''1/1''] @ [newline],
          join [tab] [''10'', ''10'', ''.'', ''G'', ''C'', ''.'', ''PASS'', ''.'', ''GT'', ''0/1''] @ [newline],
          join [tab] [''2'', ''5'', ''.'', ''A'', ''T'', ''.'', ''PASS'', ''.'', ''GT'', ''0/0''] @ [newline]]"
  by code_simp

theorem rows_sorted_by_variant_key_witness:
  "\<exists>svs rows.
      [join [tab] [''#CHROM'', ''POS'', ''ID'', ''REF'', ''ALT'', ''QUAL'', ''FILTER'', ''INFO'', ''FORMAT'', ''q1''] @ [newline],
       join [tab] [''10'', ''9'', ''.'', ''C'', ''A'', ''.'', ''PASS'', ''.'', ''GT'', ''1/1''] @ [newline],
       join [tab] [''10'', ''10'', ''.'', ''G'', ''C'', ''.'', ''PASS'', ''.'', ''GT'', ''0/1''] @ [newline],
       join [tab] [''2'', ''5'', ''.'', ''A'', ''T'', ''.'', ''PASS'', ''.'', ''GT'', ''0/0''] @ [newline]]
      = write_header
          [join [tab] [''#CHROM'', ''POS'', ''ID'', ''REF'', ''ALT'', ''QUAL'', ''FILTER'', ''INFO'', ''FORMAT'', ''d1''] @ [newline]]
          [''q1''] @ rows
    \<and> length rows = length svs
    \<and> mset svs = mset [site_a, site_b, site_c]
    \<and> sorted_wrt variant_le svs"
proof -
  have keys: "map fst [(render_key site_a, [(''q1'', ''0/0'')]),
      (render_key site_b, [(''q1'', ''0/1'')]),
      (render_key site_c, [(''q1'', ''1/1'')])] = map render_key [site_a, site_b, site_c]"
    by simp
  have chroms: "\<forall>v \<in> set [site_a, site_b, site_c]. tab \<notin> set (chrom v)"
    by (simp add: site_a_def site_b_def site_c_def)
  from rows_sorted_by_variant_key [OF keys chroms write_example]
  show ?thesis by blast
qed

subsection \<open>Missing drones and missing calls\<close>

lemma hd_split_on: "hd (split_on sep s) = takeWhile (\<lambda>c. c \<noteq> sep) s"
proof (induction s)
  case Nil
  show ?case by simp
next
  case (Cons c cs)
  then show ?case
    using split_on_nonempty [of sep cs] by (cases "split_on sep cs") auto
qed

lemma map_of_fold_update_absent:
  "k \<notin> fst ` set ps \<Longrightarrow>
     map_of (fold (\<lambda>(k, v) d. AList.update k v d) ps d0) k = map_of d0 k"
proof (induction ps arbitrary: d0)
  case Nil
  show ?case by simp
next
  case (Cons p ps)
  obtain a b where p: "p = (a, b)" by (cases p)
  with Cons.prems have "a \<noteq> k" "k \<notin> fst ` set ps" by auto
  then show ?case using Cons.IH [of "AList.update a b d0"] p
    by (simp add: update_conv')
qed

lemma absent_sample_lookup:
  "d \<notin> set sample_names \<Longrightarrow> map_of (dict_of_zip sample_names cells) d = None"
proof -
  assume "d \<notin> set sample_names"
  then have "d \<notin> fst ` set (zip sample_names cells)"
    by (auto dest: set_zip_leftD)
  then show ?thesis
    unfolding dict_of_zip_def by (simp add: map_of_fold_update_absent)
qed

text \<open>
  In diploid mode the part of claim C3 on absent drones holds: a drone that is
  not among the sample names contributes \<open>./.\<close>, which the diploid filter
  drops, so the valid calls are those of the other drones.
\<close>

lemma diploid_absent_drone_excluded:
  assumes "d \<notin> set sample_names"
  shows "drone_gt (dict_of_zip sample_names cells) d = ''./.''"
    and "valid_gts False (row_drone_gts sample_names (ds1 @ d # ds2) line)
           = valid_gts False (row_drone_gts sample_names (ds1 @ ds2) line)"
proof -
  show a: "drone_gt (dict_of_zip sample_names cells) d = ''./.''" for cells
    using assms by (simp add: drone_gt_def absent_sample_lookup)
  show "valid_gts False (row_drone_gts sample_names (ds1 @ d # ds2) line)
           = valid_gts False (row_drone_gts sample_names (ds1 @ ds2) line)"
    by (simp add: row_drone_gts_def Let_def valid_gts_def a)
qed

text \<open>
  Claim C3 at a concrete input, in haploid mode.  The header names the samples
  \<open>d1\<close> and \<open>d2\<close>, the pedigree gives the queen the drones \<open>d1\<close>, \<open>d2\<close> and
  \<open>d3\<close>, and the row holds the calls \<open>0\<close> and \<open>0\<close>.  The absent drone \<open>d3\<close>
  contributes \<open>./.\<close>, the haploid filter keeps it, and it counts in \<open>total\<close>
  and in \<open>altCount\<close>: the queen is called \<open>0/1\<close>, where the two present drones
  alone give \<open>0/0\<close>.  The same happens to a present drone whose field is the
  haploid missing call \<open>.\<close>.
\<close>

theorem haploid_missing_drone_counted:
  "row_drone_gts [''d1'', ''d2''] [''d1'', ''d2'', ''d3'']
      (join [tab] [''1'', ''100'', ''.'', ''A'', ''T'', ''.'', ''PASS'', ''.'', ''GT'', ''0'', ''0''] @ [newline])
     = [''0'', ''0'', ''./.'']
   \<and> row_drone_gts [''d1'', ''d2'', ''d3''] [''d1'', ''d2'', ''d3'']
      (join [tab] [''1'', ''100'', ''.'', ''A'', ''T'', ''.'', ''PASS'', ''.'', ''GT'', ''0'', ''0'', ''.''] @ [newline])
     = [''0'', ''0'', ''./.'']
   \<and> total_of True [''0'', ''0'', ''./.''] = 3
   \<and> alt_of True [''0'', ''0'', ''./.''] = 1
   \<and> infer_queen_gt_from_list [''0'', ''0'', ''./.''] (Finite (1 / 8)) 2 True = Inr ''0/1''
   \<and> infer_queen_gt_from_list [''0'', ''0''] (Finite (1 / 8)) 2 True = Inr ''0/0''
   \<and> get_queen_genotypes
        [join [tab] [''#CHROM'', ''POS'', ''ID'', ''REF'', ''ALT'', ''QUAL'', ''FILTER'', ''INFO'', ''FORMAT'', ''d1'', ''d2''] @ [newline],
         join [tab] [''1'', ''100'', ''.'', ''A'', ''T'', ''.'', ''PASS'', ''.'', ''GT'', ''0'', ''0''] @ [newline]]
        ''q1'' [''d1'', ''d2'', ''d3''] (Finite (1 / 8)) 2 True
     = Inr (''q1'',
            [(join [tab] [''1'', ''100'', ''.'', ''A'', ''T''], ''0/1'')],
            [(join [tab] [''1'', ''100'', ''.'', ''A'', ''T''],
              [''1'', ''100'', ''.'', ''A'', ''T'', ''.'', ''PASS'', ''.'', ''GT''])])"
  by code_simp

end
